theory Spec2Isabelle
  imports Main
begin

section \<open>The head change coalescer of chain/store/coalescer.go\<close>

text \<open>
  A Go slice of tipset pointers is either \<open>nil\<close> or a (possibly empty) sequence;
  the difference is visible to the source (\<open>c.revert != nil\<close>), so a slice is an
  optional list. Ranging over a \<open>nil\<close> slice runs the loop body zero times.
\<close>

type_synonym 'ts slice = "'ts list option"

definition elems :: "'ts slice \<Rightarrow> 'ts list" where
  "elems xs = (case xs of None \<Rightarrow> [] | Some l \<Rightarrow> l)"

text \<open>
  The error values that occur: \<open>ctx.Err()\<close> of a cancelled context is
  \<open>context.Canceled\<close>; the callback may return any error.
\<close>

datatype error = Canceled | Failure string

text \<open>
  One call of the consumer callback, as observed from outside: the instant of the call
  and the two slices passed. A \<open>ReorgNotifee\<close> is a Go closure; its result may depend
  on its arguments and on the calls it has received before.
\<close>

type_synonym 'ts call = "nat \<times> 'ts slice \<times> 'ts slice"

type_synonym 'ts ReorgNotifee = "'ts call list \<Rightarrow> 'ts slice \<Rightarrow> 'ts slice \<Rightarrow> error option"

text \<open>
  The struct \<open>HeadChangeCoalescer\<close>. \<open>c_revert\<close> and \<open>c_apply\<close> are the fields
  \<open>revert\<close> and \<open>apply\<close>; \<open>ctx_done\<close> says that \<open>cancel\<close> has been called, so that
  \<open>ctx.Done()\<close> is closed. The background goroutine's local \<open>timerC\<close> is \<open>None\<close> for the
  \<open>nil\<close> channel and \<open>Some d\<close> for a channel of \<open>time.After\<close> that delivers from instant
  \<open>d\<close> on; \<open>returned\<close> says that \<open>background\<close> has returned. \<open>notified\<close> records the
  calls of \<open>c.notify\<close> in order and \<open>logged\<close> the errors given to \<open>log.Errorf\<close>.
\<close>

record 'ts HeadChangeCoalescer =
  c_revert :: "'ts slice"
  c_apply :: "'ts slice"
  ctx_done :: bool
  timerC :: "nat option"
  returned :: bool
  notified :: "'ts call list"
  logged :: "error list"

definition NewHeadChangeCoalescer :: "'ts HeadChangeCoalescer" where
  "NewHeadChangeCoalescer =
     \<lparr>c_revert = None, c_apply = None, ctx_done = False, timerC = None,
      returned = False, notified = [], logged = []\<rparr>"

subsection \<open>coalesce\<close>

text \<open>
  The four loops that fill a \<open>map[types.TipSetKey]struct{}\<close>: the map is the set of
  its keys. \<open>key\<close> stands for the method \<open>(*types.TipSet).Key\<close>, which is not part of
  this file.
\<close>

fun keyset :: "('ts \<Rightarrow> 'k) \<Rightarrow> 'ts list \<Rightarrow> 'k set \<Rightarrow> 'k set" where
  "keyset key [] m = m"
| "keyset key (ts # tss) m = keyset key tss (insert (key ts) m)"

text \<open>
  The four loops that append to \<open>newRevert\<close> and \<open>newApply\<close>: a tipset whose key is
  in the cancelling map is skipped (\<open>continue\<close>), any other is appended.
\<close>

fun append_uncancelled :: "('ts \<Rightarrow> 'k) \<Rightarrow> 'k set \<Rightarrow> 'ts list \<Rightarrow> 'ts list \<Rightarrow> 'ts list" where
  "append_uncancelled key m [] new = new"
| "append_uncancelled key m (ts # tss) new =
     (if key ts \<in> m then append_uncancelled key m tss new
      else append_uncancelled key m tss (new @ [ts]))"

definition coalesce ::
  "('ts \<Rightarrow> 'k) \<Rightarrow> 'ts HeadChangeCoalescer \<Rightarrow> 'ts slice \<Rightarrow> 'ts slice \<Rightarrow> 'ts HeadChangeCoalescer" where
  "coalesce key c revert apply =
     (let pendRevert = keyset key (elems (c_revert c)) {};
          pendApply = keyset key (elems (c_apply c)) {};
          reverting = keyset key (elems revert) {};
          applying = keyset key (elems apply) {};
          newRevert = append_uncancelled key applying (elems (c_revert c)) [];
          newRevert = append_uncancelled key pendApply (elems revert) newRevert;
          newApply = append_uncancelled key reverting (elems (c_apply c)) [];
          newApply = append_uncancelled key pendRevert (elems apply) newApply
      in c\<lparr>c_revert := Some newRevert, c_apply := Some newApply\<rparr>)"

text \<open>The tipset keys that occur in a slice.\<close>

definition keys :: "('ts \<Rightarrow> 'k) \<Rightarrow> 'ts slice \<Rightarrow> 'k set" where
  "keys key xs = key ` set (elems xs)"

subsection \<open>dispatch\<close>

definition dispatch :: "'ts ReorgNotifee \<Rightarrow> nat \<Rightarrow> 'ts HeadChangeCoalescer \<Rightarrow> 'ts HeadChangeCoalescer" where
  "dispatch notify now c =
     (let err = notify (notified c) (c_revert c) (c_apply c);
          c = c\<lparr>notified := notified c @ [(now, c_revert c, c_apply c)]\<rparr>;
          c = (case err of None \<Rightarrow> c | Some e \<Rightarrow> c\<lparr>logged := logged c @ [e]\<rparr>)
      in c\<lparr>c_revert := None, c_apply := None\<rparr>)"

subsection \<open>background\<close>

text \<open>
  The loop of \<open>background\<close> blocks in its \<open>select\<close> and runs the body of the case that
  proceeds. These are the bodies of the three cases, run at instant
  \<open>now\<close>. \<open>time.After(delay)\<close> called at \<open>now\<close> is a channel that delivers from
  \<open>now + delay\<close> on; a delay that is not positive delivers at once, as the delay 0 does,
  so that instants and delays are natural numbers.
\<close>

definition background_eventq ::
  "nat \<Rightarrow> ('ts \<Rightarrow> 'k) \<Rightarrow> nat \<Rightarrow> 'ts HeadChangeCoalescer \<Rightarrow> 'ts slice \<Rightarrow> 'ts slice \<Rightarrow> 'ts HeadChangeCoalescer" where
  "background_eventq delay key now c revert apply =
     (let c = coalesce key c revert apply
      in if timerC c = None then c\<lparr>timerC := Some (now + delay)\<rparr> else c)"

definition background_timerC :: "'ts ReorgNotifee \<Rightarrow> nat \<Rightarrow> 'ts HeadChangeCoalescer \<Rightarrow> 'ts HeadChangeCoalescer" where
  "background_timerC notify now c = (dispatch notify now c)\<lparr>timerC := None\<rparr>"

definition background_ctx_done :: "'ts ReorgNotifee \<Rightarrow> nat \<Rightarrow> 'ts HeadChangeCoalescer \<Rightarrow> 'ts HeadChangeCoalescer" where
  "background_ctx_done notify now c =
     (let c = (if c_revert c \<noteq> None \<or> c_apply c \<noteq> None then dispatch notify now c else c)
      in c\<lparr>returned := True\<rparr>)"

text \<open>
  When the loop can take the timer case at instant \<open>now\<close>: a receive from the \<open>nil\<close>
  channel never proceeds, and the channel of \<open>time.After\<close> delivers no earlier than its
  instant.
\<close>

definition timer_ready :: "nat \<Rightarrow> 'ts HeadChangeCoalescer \<Rightarrow> bool" where
  "timer_ready now c = (case timerC c of None \<Rightarrow> False | Some d \<Rightarrow> d \<le> now)"

subsection \<open>HeadChange and Close\<close>

text \<open>
  \<open>HeadChange\<close> selects between sending on the unbuffered \<open>eventq\<close> and \<open>ctx.Done()\<close>.
  The send proceeds only with the background loop blocked in its own \<open>select\<close>; once
  the context is cancelled the loop always has a case of its own to take and the caller
  has \<open>ctx.Done()\<close>, so neither waits for the other. With the context live and the loop
  gone nothing could proceed and the call would block for good: that is the result
  \<open>None\<close>. An accepted event runs the loop's event case at the same instant (the
  channel has no buffer).
\<close>

definition HeadChange ::
  "nat \<Rightarrow> ('ts \<Rightarrow> 'k) \<Rightarrow> nat \<Rightarrow> 'ts HeadChangeCoalescer \<Rightarrow> 'ts slice \<Rightarrow> 'ts slice
     \<Rightarrow> (error option \<times> 'ts HeadChangeCoalescer) option" where
  "HeadChange delay key now c revert apply =
     (if ctx_done c then Some (Some Canceled, c)
      else if returned c then None
      else Some (None, background_eventq delay key now c revert apply))"

definition Close :: "'ts HeadChangeCoalescer \<Rightarrow> error option \<times> 'ts HeadChangeCoalescer" where
  "Close c = (None, if ctx_done c then c else c\<lparr>ctx_done := True\<rparr>)"

subsection \<open>Runs of the coalescer\<close>

text \<open>
  What can happen to a coalescer, one thing at a time: a producer calls \<open>HeadChange\<close>,
  somebody calls \<open>Close\<close>, or the background loop wakes up on its timer or on the
  cancelled context. Each is stamped with the instant at which it happens. A step
  that cannot happen in a state (a wake-up whose case cannot proceed, or of a loop
  that has returned; a \<open>HeadChange\<close> that never returns) has no successor state.
\<close>

datatype 'ts action = Submit "'ts slice" "'ts slice" | Shutdown | WakeTimer | WakeDone

fun step ::
  "nat \<Rightarrow> ('ts \<Rightarrow> 'k) \<Rightarrow> 'ts ReorgNotifee \<Rightarrow> 'ts HeadChangeCoalescer \<Rightarrow> nat \<times> 'ts action
     \<Rightarrow> 'ts HeadChangeCoalescer option" where
  "step delay key notify c (now, Submit revert apply) =
     map_option snd (HeadChange delay key now c revert apply)"
| "step delay key notify c (now, Shutdown) = Some (snd (Close c))"
| "step delay key notify c (now, WakeTimer) =
     (if \<not> returned c \<and> timer_ready now c then Some (background_timerC notify now c) else None)"
| "step delay key notify c (now, WakeDone) =
     (if \<not> returned c \<and> ctx_done c then Some (background_ctx_done notify now c) else None)"

fun run ::
  "nat \<Rightarrow> ('ts \<Rightarrow> 'k) \<Rightarrow> 'ts ReorgNotifee \<Rightarrow> 'ts HeadChangeCoalescer \<Rightarrow> (nat \<times> 'ts action) list
     \<Rightarrow> 'ts HeadChangeCoalescer option" where
  "run delay key notify c [] = Some c"
| "run delay key notify c (x # xs) =
     (case step delay key notify c x of None \<Rightarrow> None | Some c' \<Rightarrow> run delay key notify c' xs)"

text \<open>
  Timing of a run. The instants of a run do not decrease, and the loop, which spends
  its life blocked in the \<open>select\<close>, is woken by its timer no later than the timer's
  instant: while the loop lives and a timer is armed for \<open>d\<close>, nothing happens after
  \<open>d\<close> before the timer case has run. \<open>on_time \<dots> c t xs\<close> says so of the run \<open>xs\<close>
  from \<open>c\<close>, where \<open>t\<close> is the instant of what happened last; it also says that every
  step of the run can happen.
\<close>

fun on_time ::
  "nat \<Rightarrow> ('ts \<Rightarrow> 'k) \<Rightarrow> 'ts ReorgNotifee \<Rightarrow> 'ts HeadChangeCoalescer \<Rightarrow> nat
     \<Rightarrow> (nat \<times> 'ts action) list \<Rightarrow> bool" where
  "on_time delay key notify c t [] = True"
| "on_time delay key notify c t ((now, x) # xs) =
     (t \<le> now \<and>
      (returned c \<or> (case timerC c of None \<Rightarrow> True | Some d \<Rightarrow> now \<le> d)) \<and>
      (case step delay key notify c (now, x) of
         None \<Rightarrow> False
       | Some c' \<Rightarrow> on_time delay key notify c' now xs))"

text \<open>The submissions of a run, each with its instant, in the order of the run.\<close>

fun submitted :: "(nat \<times> 'ts action) list \<Rightarrow> (nat \<times> 'ts slice \<times> 'ts slice) list" where
  "submitted [] = []"
| "submitted ((t, Submit r a) # xs) = (t, r, a) # submitted xs"
| "submitted ((t, x) # xs) = submitted xs"

text \<open>The pending pair after \<open>coalesce\<close> has merged a burst into it, one event after the other.\<close>

fun coalesce_all ::
  "('ts \<Rightarrow> 'k) \<Rightarrow> 'ts HeadChangeCoalescer \<Rightarrow> (nat \<times> 'ts slice \<times> 'ts slice) list
     \<Rightarrow> 'ts HeadChangeCoalescer" where
  "coalesce_all key c [] = c"
| "coalesce_all key c ((t, r, a) # evs) = coalesce_all key (coalesce key c r a) evs"

subsection \<open>Invariants used in the proofs\<close>

text \<open>
  What holds of every coalescer that \<open>NewHeadChangeCoalescer\<close> and the steps above
  produce: the loop returns only on a cancelled context, and while it lives the pending
  slices are \<open>nil\<close> exactly when no timer is armed.
\<close>

definition consistent :: "'ts HeadChangeCoalescer \<Rightarrow> bool" where
  "consistent c =
     ((ctx_done c \<or> \<not> returned c) \<and>
      (returned c \<or>
       ((c_revert c = None) = (timerC c = None) \<and> (c_apply c = None) = (timerC c = None))))"

text \<open>
  The states \<open>c'\<close> that can follow \<open>Close\<close> called on \<open>c\<close> with a pending slice that is
  not \<open>nil\<close>: nothing has happened yet, or the pending pair of \<open>c\<close> has been dispatched
  (once) and the loop has returned or has nothing left to wait for but the context.
\<close>

definition closing :: "'ts HeadChangeCoalescer \<Rightarrow> 'ts HeadChangeCoalescer \<Rightarrow> bool" where
  "closing c c' =
     (ctx_done c' \<and>
      (c' = snd (Close c) \<or>
       ((\<exists>t. notified c' = notified c @ [(t, c_revert c, c_apply c)]) \<and>
        c_revert c' = None \<and> c_apply c' = None \<and> (returned c' \<or> timerC c' = None))))"

text \<open>The states that can follow \<open>Close\<close> called on \<open>c\<close> with both slices \<open>nil\<close> and no timer.\<close>

definition closing_nil :: "'ts HeadChangeCoalescer \<Rightarrow> 'ts HeadChangeCoalescer \<Rightarrow> bool" where
  "closing_nil c c' =
     (ctx_done c' \<and> notified c' = notified c \<and> c_revert c' = None \<and> c_apply c' = None \<and>
      (returned c' \<or> timerC c' = None))"

text \<open>
  For a timer armed for \<open>D\<close> by a submission at \<open>t0\<close>, with \<open>log0\<close> the calls made
  before: the loop still waits on that timer with no call made since; or a call has been
  made since, at an instant from \<open>t0\<close> to \<open>D\<close>.
\<close>

definition armed :: "'ts call list \<Rightarrow> nat \<Rightarrow> 'ts HeadChangeCoalescer \<Rightarrow> bool" where
  "armed log0 D c =
     (notified c = log0 \<and> \<not> returned c \<and> timerC c = Some D \<and> c_revert c \<noteq> None)"

definition fired :: "'ts call list \<Rightarrow> nat \<Rightarrow> nat \<Rightarrow> 'ts HeadChangeCoalescer \<Rightarrow> bool" where
  "fired log0 t0 D c =
     (\<exists>ys td R A. notified c = log0 @ ys \<and> (td, R, A) \<in> set ys \<and> t0 \<le> td \<and> td \<le> D)"

section \<open>Properties of coalesce\<close>

lemma elems_simps [simp]: "elems None = []" "elems (Some l) = l"
  by (simp_all add: elems_def)

lemma keyset_eq: "keyset key tss m = key ` set tss \<union> m"
  by (induction tss arbitrary: m) auto

lemma append_uncancelled_eq:
  "append_uncancelled key m tss new = new @ filter (\<lambda>ts. key ts \<notin> m) tss"
  by (induction tss arbitrary: new) auto

lemma coalesce_eq:
  "coalesce key c r a =
     c\<lparr>c_revert := Some (filter (\<lambda>ts. key ts \<notin> keys key a) (elems (c_revert c)) @
                          filter (\<lambda>ts. key ts \<notin> keys key (c_apply c)) (elems r)),
       c_apply := Some (filter (\<lambda>ts. key ts \<notin> keys key r) (elems (c_apply c)) @
                         filter (\<lambda>ts. key ts \<notin> keys key (c_revert c)) (elems a))\<rparr>"
  by (simp add: coalesce_def Let_def keyset_eq append_uncancelled_eq keys_def)

lemma keys_coalesce_revert:
  "keys key (c_revert (coalesce key c r a)) =
     (keys key (c_revert c) - keys key a) \<union> (keys key r - keys key (c_apply c))"
  by (auto simp: coalesce_eq keys_def)

lemma keys_coalesce_apply:
  "keys key (c_apply (coalesce key c r a)) =
     (keys key (c_apply c) - keys key r) \<union> (keys key a - keys key (c_revert c))"
  by (auto simp: coalesce_eq keys_def)

text \<open>
  C1. Whatever the pending pair \<open>(R, A)\<close> and the incoming pair \<open>(r, a)\<close>, \<open>coalesce\<close>
  leaves as new revert sequence the elements of \<open>R\<close> whose key is not in \<open>a\<close>, followed
  by the elements of \<open>r\<close> whose key is not in \<open>A\<close>, and as new apply sequence the
  elements of \<open>A\<close> whose key is not in \<open>r\<close>, followed by the elements of \<open>a\<close> whose key
  is not in \<open>R\<close>. Each group is its source sequence filtered: order and repetitions
  are kept, pending elements come first. Nothing else of the coalescer changes.
\<close>

theorem coalesce_merge:
  "coalesce key c r a =
     c\<lparr>c_revert := Some (filter (\<lambda>ts. key ts \<notin> key ` set (elems a)) (elems (c_revert c)) @
                          filter (\<lambda>ts. key ts \<notin> key ` set (elems (c_apply c))) (elems r)),
       c_apply := Some (filter (\<lambda>ts. key ts \<notin> key ` set (elems r)) (elems (c_apply c)) @
                         filter (\<lambda>ts. key ts \<notin> key ` set (elems (c_revert c))) (elems a))\<rparr>"
  by (simp add: coalesce_def Let_def keyset_eq append_uncancelled_eq)

text \<open>
  C2, as stated, fails: with nothing pending, an incoming event that names the same
  tipset in its revert and in its apply sequence leaves that key in both results.
\<close>

theorem cancellation_counterexample:
  "(1::nat) \<in> keys id (c_revert (coalesce id NewHeadChangeCoalescer (Some [1]) (Some [1]))) \<and>
   (1::nat) \<in> keys id (c_apply (coalesce id NewHeadChangeCoalescer (Some [1]) (Some [1])))"
  by (simp add: coalesce_eq keys_def NewHeadChangeCoalescer_def)

text \<open>
  C2, amended. For every tipset key \<open>k\<close> that is not in both pending sequences and
  not in both incoming sequences, \<open>k\<close> is not in both sequences that \<open>coalesce\<close> leaves.
\<close>

theorem cancellation_per_key:
  assumes "\<not> (k \<in> keys key (c_revert c) \<and> k \<in> keys key (c_apply c))"
      and "\<not> (k \<in> keys key r \<and> k \<in> keys key a)"
  shows "\<not> (k \<in> keys key (c_revert (coalesce key c r a)) \<and>
            k \<in> keys key (c_apply (coalesce key c r a)))"
  using assms by (auto simp: keys_coalesce_revert keys_coalesce_apply)

theorem cancellation_per_key_witness:
  "\<not> ((2::nat) \<in> keys id (c_revert (coalesce id (coalesce id NewHeadChangeCoalescer None (Some [2, 3])) (Some [2]) (Some [4]))) \<and>
      (2::nat) \<in> keys id (c_apply (coalesce id (coalesce id NewHeadChangeCoalescer None (Some [2, 3])) (Some [2]) (Some [4]))))"
  using cancellation_per_key [of 2 id "coalesce id NewHeadChangeCoalescer None (Some [2, 3])" "Some [2]" "Some [4]"]
  by (simp add: coalesce_eq keys_def NewHeadChangeCoalescer_def)

text \<open>
  C9. If the pending revert and apply sequences share no tipset key, and the incoming
  revert and apply sequences share none either, then the two sequences that \<open>coalesce\<close>
  leaves share no tipset key.
\<close>

theorem coalesce_keeps_disjoint:
  assumes "keys key (c_revert c) \<inter> keys key (c_apply c) = {}"
      and "keys key r \<inter> keys key a = {}"
  shows "keys key (c_revert (coalesce key c r a)) \<inter> keys key (c_apply (coalesce key c r a)) = {}"
  using assms by (auto simp: keys_coalesce_revert keys_coalesce_apply)

theorem coalesce_keeps_disjoint_witness:
  "keys id (c_revert (coalesce id (coalesce id NewHeadChangeCoalescer (Some [1]) (Some [2, 3])) (Some [2]) (Some [1, 4]))) \<inter>
   keys id (c_apply (coalesce id (coalesce id NewHeadChangeCoalescer (Some [1]) (Some [2, 3])) (Some [2]) (Some [1, 4]))) = ({}::nat set)"
  using coalesce_keeps_disjoint [of id "coalesce id NewHeadChangeCoalescer (Some [1]) (Some [2, 3])" "Some [2::nat]" "Some [1, 4]"]
  by (simp add: coalesce_eq keys_def NewHeadChangeCoalescer_def)

section \<open>Properties of dispatch and of runs\<close>

lemma dispatch_eq:
  "dispatch notify now c =
     c\<lparr>notified := notified c @ [(now, c_revert c, c_apply c)],
       logged := logged c @
         (case notify (notified c) (c_revert c) (c_apply c) of None \<Rightarrow> [] | Some e \<Rightarrow> [e]),
       c_revert := None, c_apply := None\<rparr>"
  by (simp add: dispatch_def Let_def split: option.splits)

lemmas eval_defs =
  NewHeadChangeCoalescer_def HeadChange_def Close_def background_eventq_def background_timerC_def
  background_ctx_done_def timer_ready_def coalesce_eq dispatch_eq keys_def

lemma run_append:
  "run delay key notify c (xs @ ys) =
     (case run delay key notify c xs of None \<Rightarrow> None | Some c1 \<Rightarrow> run delay key notify c1 ys)"
  by (induction xs arbitrary: c) (auto split: option.splits)

subsection \<open>After Close\<close>

lemma HeadChange_done: "ctx_done c \<Longrightarrow> HeadChange delay key now c r a = Some (Some Canceled, c)"
  by (simp add: HeadChange_def)

lemma step_ctx_done:
  assumes "step delay key notify c x = Some c'" and "ctx_done c"
  shows "ctx_done c'"
proof (cases x)
  case (Pair now act)
  with assms show ?thesis
    by (cases act)
       (auto simp: HeadChange_def Close_def background_timerC_def background_ctx_done_def dispatch_eq
             split: if_splits)
qed

lemma run_ctx_done:
  "run delay key notify c xs = Some c' \<Longrightarrow> ctx_done c \<Longrightarrow> ctx_done c'"
  by (induction xs arbitrary: c) (auto split: option.splits dest: step_ctx_done)

lemma Close_ctx_done: "ctx_done (snd (Close c))"
  by (simp add: Close_def)

text \<open>
  C5. Take any run that starts with \<open>Close\<close> having returned, and any point of it. A
  \<open>HeadChange\<close> called at that point returns the error of the cancelled context and
  leaves the coalescer as it was, pending slices included; and the run with this call
  put in ends in the same state as the run without it, so the calls the consumer
  callback receives are the same as if the event had never been submitted.
\<close>

theorem HeadChange_after_Close:
  assumes "run delay key notify (snd (Close c)) (before @ after) = Some c'"
  shows "\<exists>c1. run delay key notify (snd (Close c)) before = Some c1 \<and>
              HeadChange delay key now c1 r a = Some (Some Canceled, c1) \<and>
              run delay key notify (snd (Close c)) (before @ (now, Submit r a) # after) = Some c'"
proof -
  from assms obtain c1 where c1: "run delay key notify (snd (Close c)) before = Some c1"
    and rest: "run delay key notify c1 after = Some c'"
    by (auto simp: run_append split: option.splits)
  from c1 have "ctx_done c1" by (rule run_ctx_done) (rule Close_ctx_done)
  then have "HeadChange delay key now c1 r a = Some (Some Canceled, c1)"
    by (rule HeadChange_done)
  with c1 rest show ?thesis by (simp add: run_append)
qed

theorem HeadChange_after_Close_witness:
  "\<exists>c1. run 10 id (\<lambda>h r a. None)
           (snd (Close \<lparr>c_revert = Some [], c_apply = Some [1::nat], ctx_done = False,
                         timerC = Some 10, returned = False, notified = [], logged = []\<rparr>))
           [(3, WakeDone)] = Some c1 \<and>
         HeadChange 10 id 4 c1 (Some [1]) (Some [2]) = Some (Some Canceled, c1) \<and>
         run 10 id (\<lambda>h r a. None)
           (snd (Close \<lparr>c_revert = Some [], c_apply = Some [1::nat], ctx_done = False,
                         timerC = Some 10, returned = False, notified = [], logged = []\<rparr>))
           ([(3, WakeDone)] @ (4, Submit (Some [1]) (Some [2])) # [(5, Shutdown)]) =
         Some \<lparr>c_revert = None, c_apply = None, ctx_done = True, timerC = Some 10,
               returned = True, notified = [(3, Some [], Some [1])], logged = []\<rparr>"
proof -
  have "run 10 id (\<lambda>h r a. None)
          (snd (Close \<lparr>c_revert = Some [], c_apply = Some [1::nat], ctx_done = False,
                        timerC = Some 10, returned = False, notified = [], logged = []\<rparr>))
          ([(3, WakeDone)] @ [(5, Shutdown)]) =
        Some \<lparr>c_revert = None, c_apply = None, ctx_done = True, timerC = Some 10,
              returned = True, notified = [(3, Some [], Some [1])], logged = []\<rparr>"
    by (simp add: eval_defs)
  then show ?thesis by (rule HeadChange_after_Close)
qed

subsection \<open>Close with something pending\<close>

lemma closing_step:
  assumes "closing c c1" and "c_revert c \<noteq> None \<or> c_apply c \<noteq> None"
      and "step delay key notify c1 x = Some c2"
  shows "closing c c2"
proof (cases x)
  case (Pair now act)
  show ?thesis
  proof (cases act)
    case (Submit r a)
    with Pair assms show ?thesis by (auto simp: closing_def HeadChange_def)
  next
    case Shutdown
    with Pair assms show ?thesis by (auto simp: closing_def Close_def)
  next
    case WakeTimer
    with Pair assms show ?thesis
      by (auto simp: closing_def Close_def background_timerC_def dispatch_eq timer_ready_def
               split: if_splits)
  next
    case WakeDone
    with Pair assms show ?thesis
      by (auto simp: closing_def Close_def background_ctx_done_def dispatch_eq split: if_splits)
  qed
qed

lemma closing_run:
  assumes "closing c c1" and "c_revert c \<noteq> None \<or> c_apply c \<noteq> None"
      and "run delay key notify c1 xs = Some c2"
  shows "closing c c2"
  using assms
proof (induction xs arbitrary: c1)
  case Nil
  then show ?case by simp
next
  case (Cons x xs)
  from Cons.prems(3) obtain cm where s: "step delay key notify c1 x = Some cm"
    and r: "run delay key notify cm xs = Some c2"
    by (auto split: option.splits)
  from Cons.prems(1,2) s have "closing c cm" by (rule closing_step)
  then show ?case using Cons.prems(2) r by (rule Cons.IH)
qed

lemma nonempty_nonnil: "elems xs \<noteq> [] \<Longrightarrow> xs \<noteq> None"
  by (cases xs) auto

text \<open>
  C3. Let \<open>Close\<close> be called on a live coalescer whose pending slices hold at least
  one tipset, and let \<open>c'\<close> be the state after any run that follows. Then the consumer
  callback has been called at most once more, with exactly the pending pair of the
  moment of \<open>Close\<close>; once the loop has returned it has been called exactly once more;
  and as long as the loop has not returned it can take its \<open>ctx.Done()\<close> case, which
  makes it return with exactly that one call made. Since \<open>c'\<close> is any later state, no
  further call follows.
\<close>

theorem flush_on_close:
  assumes live: "\<not> ctx_done c" "\<not> returned c"
      and pending: "elems (c_revert c) \<noteq> [] \<or> elems (c_apply c) \<noteq> []"
      and run: "run delay key notify (snd (Close c)) sched = Some c'"
  shows "(notified c' = notified c \<or>
            (\<exists>t. notified c' = notified c @ [(t, c_revert c, c_apply c)])) \<and>
         (returned c' \<longrightarrow> (\<exists>t. notified c' = notified c @ [(t, c_revert c, c_apply c)])) \<and>
         (\<not> returned c' \<longrightarrow>
            (\<exists>c''. step delay key notify c' (now, WakeDone) = Some c'' \<and> returned c'' \<and>
                   (\<exists>t. notified c'' = notified c @ [(t, c_revert c, c_apply c)])))"
proof -
  from pending have nn: "c_revert c \<noteq> None \<or> c_apply c \<noteq> None"
    by (auto dest: nonempty_nonnil)
  have "closing c (snd (Close c))" by (simp add: closing_def Close_def)
  then have cl: "closing c c'" using nn run by (rule closing_run)
  have a: "notified c' = notified c \<or>
             (\<exists>t. notified c' = notified c @ [(t, c_revert c, c_apply c)])"
    using cl by (auto simp: closing_def Close_def)
  have b: "returned c' \<longrightarrow> (\<exists>t. notified c' = notified c @ [(t, c_revert c, c_apply c)])"
    using cl live by (auto simp: closing_def Close_def)
  have c: "\<not> returned c' \<longrightarrow>
            (\<exists>c''. step delay key notify c' (now, WakeDone) = Some c'' \<and> returned c'' \<and>
                   (\<exists>t. notified c'' = notified c @ [(t, c_revert c, c_apply c)]))"
    using cl live nn by (auto simp: closing_def Close_def background_ctx_done_def dispatch_eq)
  from a b c show ?thesis by blast
qed

theorem flush_on_close_witness:
  "run 10 id (\<lambda>h r a. None)
     (snd (Close \<lparr>c_revert = Some [], c_apply = Some [1::nat], ctx_done = False,
                   timerC = Some 10, returned = False, notified = [], logged = []\<rparr>))
     [(3, Submit (Some [1]) None), (4, WakeDone), (5, Shutdown)] =
   Some \<lparr>c_revert = None, c_apply = None, ctx_done = True, timerC = Some 10,
         returned = True, notified = [(4, Some [], Some [1])], logged = []\<rparr> \<and>
   (\<exists>t. [(4, Some [], Some [1::nat])] = [] @ [(t, Some [], Some [1])])"
proof -
  have r: "run 10 id (\<lambda>h r a. None)
     (snd (Close \<lparr>c_revert = Some [], c_apply = Some [1::nat], ctx_done = False,
                   timerC = Some 10, returned = False, notified = [], logged = []\<rparr>))
     [(3, Submit (Some [1]) None), (4, WakeDone), (5, Shutdown)] =
   Some \<lparr>c_revert = None, c_apply = None, ctx_done = True, timerC = Some 10,
         returned = True, notified = [(4, Some [], Some [1])], logged = []\<rparr>"
    by (simp add: eval_defs)
  show ?thesis using r flush_on_close [OF _ _ _ r, of 0] by simp
qed

subsection \<open>Close with nothing pending\<close>

lemma consistent_New: "consistent NewHeadChangeCoalescer"
  by (simp add: consistent_def NewHeadChangeCoalescer_def)

lemma consistent_step:
  assumes "consistent c" and "step delay key notify c x = Some c'"
  shows "consistent c'"
proof (cases x)
  case (Pair now act)
  show ?thesis
  proof (cases act)
    case (Submit r a)
    with Pair assms show ?thesis
      by (auto simp: consistent_def HeadChange_def background_eventq_def coalesce_eq split: if_splits)
  next
    case Shutdown
    with Pair assms show ?thesis by (auto simp: consistent_def Close_def split: if_splits)
  next
    case WakeTimer
    with Pair assms show ?thesis
      by (auto simp: consistent_def background_timerC_def dispatch_eq split: if_splits)
  next
    case WakeDone
    with Pair assms show ?thesis
      by (auto simp: consistent_def background_ctx_done_def dispatch_eq split: if_splits)
  qed
qed

lemma consistent_run:
  "consistent c \<Longrightarrow> run delay key notify c xs = Some c' \<Longrightarrow> consistent c'"
  by (induction xs arbitrary: c) (auto split: option.splits dest: consistent_step)

lemma closing_nil_step:
  assumes "closing_nil c c1" and "step delay key notify c1 x = Some c2"
  shows "closing_nil c c2"
proof (cases x)
  case (Pair now act)
  with assms show ?thesis
    by (cases act)
       (auto simp: closing_nil_def HeadChange_def Close_def background_timerC_def background_ctx_done_def
                   timer_ready_def split: if_splits)
qed

lemma closing_nil_run:
  "closing_nil c c1 \<Longrightarrow> run delay key notify c1 xs = Some c2 \<Longrightarrow> closing_nil c c2"
  by (induction xs arbitrary: c1) (auto split: option.splits dest: closing_nil_step)

text \<open>
  C4, as stated, fails. A new coalescer receives apply \<open>[1]\<close> and then revert \<open>[1]\<close>:
  the two cancel and both pending slices hold no tipset, but they are not \<open>nil\<close>. \<open>Close\<close>
  is called; the loop takes its \<open>ctx.Done()\<close> case and calls the consumer callback, with
  two empty slices.
\<close>

theorem no_flush_on_empty_close_counterexample:
  "run 10 id (\<lambda>h r a. None) NewHeadChangeCoalescer
     [(0, Submit None (Some [1::nat])), (1, Submit (Some [1]) None)] =
   Some \<lparr>c_revert = Some [], c_apply = Some [], ctx_done = False, timerC = Some 10,
         returned = False, notified = [], logged = []\<rparr> \<and>
   elems (Some ([]::nat list)) = [] \<and>
   run 10 id (\<lambda>h r a. None)
     (snd (Close \<lparr>c_revert = Some [], c_apply = Some ([]::nat list), ctx_done = False,
                   timerC = Some 10, returned = False, notified = [], logged = []\<rparr>))
     [(2, WakeDone)] =
   Some \<lparr>c_revert = None, c_apply = None, ctx_done = True, timerC = Some 10,
         returned = True, notified = [(2, Some [], Some [])], logged = []\<rparr>"
  by (simp add: eval_defs)

text \<open>
  C4, amended. If both pending slices are \<open>nil\<close> (no event has been merged since the
  last dispatch, or since the coalescer was made) when \<open>Close\<close> is called on a live
  coalescer, the consumer callback is not called again, whatever follows; and the loop
  can take its \<open>ctx.Done()\<close> case at once, which makes it return without a call.
\<close>

theorem no_flush_on_nil_close:
  assumes reach: "run delay key notify NewHeadChangeCoalescer pre = Some c"
      and live: "\<not> ctx_done c"
      and nil: "c_revert c = None" "c_apply c = None"
      and run: "run delay key notify (snd (Close c)) sched = Some c'"
  shows "notified c' = notified c \<and>
         (\<exists>c''. step delay key notify (snd (Close c)) (now, WakeDone) = Some c'' \<and>
                returned c'' \<and> notified c'' = notified c)"
proof -
  from consistent_New reach have "consistent c" by (rule consistent_run)
  with live nil have nr: "\<not> returned c" and nt: "timerC c = None"
    by (auto simp: consistent_def)
  from live nil nt have "closing_nil c (snd (Close c))"
    by (simp add: closing_nil_def Close_def)
  then have "closing_nil c c'" using run by (rule closing_nil_run)
  then have a: "notified c' = notified c" by (simp add: closing_nil_def)
  have b: "\<exists>c''. step delay key notify (snd (Close c)) (now, WakeDone) = Some c'' \<and>
                returned c'' \<and> notified c'' = notified c"
    using live nil nr by (simp add: Close_def background_ctx_done_def)
  from a b show ?thesis by simp
qed

theorem no_flush_on_nil_close_witness:
  "run 10 id (\<lambda>h r a. None) NewHeadChangeCoalescer
     [(0, Submit None (Some [1::nat])), (10, WakeTimer)] =
   Some \<lparr>c_revert = None, c_apply = None, ctx_done = False, timerC = None,
         returned = False, notified = [(10, Some [], Some [1])], logged = []\<rparr> \<and>
   run 10 id (\<lambda>h r a. None)
     (snd (Close \<lparr>c_revert = None, c_apply = None, ctx_done = False, timerC = None,
                   returned = False, notified = [(10, Some [], Some [1::nat])], logged = []\<rparr>))
     [(11, Submit None (Some [2])), (12, WakeDone)] =
   Some \<lparr>c_revert = None, c_apply = None, ctx_done = True, timerC = None,
         returned = True, notified = [(10, Some [], Some [1])], logged = []\<rparr> \<and>
   notified \<lparr>c_revert = None, c_apply = None, ctx_done = True, timerC = None,
         returned = True, notified = [(10, Some [], Some [1::nat])], logged = []\<rparr> =
   notified \<lparr>c_revert = None, c_apply = None, ctx_done = False, timerC = None,
         returned = False, notified = [(10, Some [], Some [1::nat])], logged = []\<rparr>"
proof -
  have p: "run 10 id (\<lambda>h r a. None) NewHeadChangeCoalescer
     [(0, Submit None (Some [1::nat])), (10, WakeTimer)] =
   Some \<lparr>c_revert = None, c_apply = None, ctx_done = False, timerC = None,
         returned = False, notified = [(10, Some [], Some [1])], logged = []\<rparr>"
    by (simp add: eval_defs)
  have r: "run 10 id (\<lambda>h r a. None)
     (snd (Close \<lparr>c_revert = None, c_apply = None, ctx_done = False, timerC = None,
                   returned = False, notified = [(10, Some [], Some [1::nat])], logged = []\<rparr>))
     [(11, Submit None (Some [2])), (12, WakeDone)] =
   Some \<lparr>c_revert = None, c_apply = None, ctx_done = True, timerC = None,
         returned = True, notified = [(10, Some [], Some [1])], logged = []\<rparr>"
    by (simp add: eval_defs)
  from no_flush_on_nil_close [OF p _ _ _ r] p r show ?thesis by simp
qed

subsection \<open>A failing callback\<close>

text \<open>
  C6. When the consumer callback returns an error \<open>e\<close>, \<open>dispatch\<close> calls it once
  (no retry), hands \<open>e\<close> to the log, and clears both pending slices: the coalescer it
  leaves is the one a successful callback leaves, but for the log. The loop's timer
  case ends with the loop alive as before, and what a later \<open>HeadChange\<close> returns is
  what it would have returned without the dispatch: the error reaches no submitter.
\<close>

theorem dispatch_error_swallowed:
  assumes "notify (notified c) (c_revert c) (c_apply c) = Some e"
  shows "dispatch notify now c =
           c\<lparr>notified := notified c @ [(now, c_revert c, c_apply c)],
             logged := logged c @ [e], c_revert := None, c_apply := None\<rparr> \<and>
         dispatch notify now c = (dispatch (\<lambda>h r a. None) now c)\<lparr>logged := logged c @ [e]\<rparr> \<and>
         background_timerC notify now c =
           c\<lparr>notified := notified c @ [(now, c_revert c, c_apply c)],
             logged := logged c @ [e], c_revert := None, c_apply := None, timerC := None\<rparr> \<and>
         map_option fst (HeadChange delay key t (background_timerC notify now c) r a) =
           map_option fst (HeadChange delay key t c r a)"
  using assms by (simp add: dispatch_eq background_timerC_def HeadChange_def)

theorem dispatch_error_swallowed_witness:
  "dispatch (\<lambda>h r a. Some (Failure ''boom'')) 10
     \<lparr>c_revert = Some [], c_apply = Some [1::nat], ctx_done = False, timerC = Some 10,
      returned = False, notified = [], logged = []\<rparr> =
   \<lparr>c_revert = None, c_apply = None, ctx_done = False, timerC = Some 10,
    returned = False, notified = [(10, Some [], Some [1])], logged = [Failure ''boom'']\<rparr> \<and>
   map_option fst (HeadChange 10 id 11
     (background_timerC (\<lambda>h r a. Some (Failure ''boom'')) 10
        \<lparr>c_revert = Some [], c_apply = Some [1::nat], ctx_done = False, timerC = Some 10,
         returned = False, notified = [], logged = []\<rparr>) None (Some [2])) = Some None"
  using dispatch_error_swallowed [of "\<lambda>h r a. Some (Failure ''boom'')"
      "\<lparr>c_revert = Some [], c_apply = Some [1::nat], ctx_done = False, timerC = Some 10,
        returned = False, notified = [], logged = []\<rparr>" "Failure ''boom''" 10 10 id 11 None "Some [2]"]
  by (simp add: HeadChange_def)

subsection \<open>Events that cancel out\<close>

text \<open>
  C10. \<open>coalesce\<close> always leaves both pending slices not \<open>nil\<close>, also when they hold
  no tipset. So when a new coalescer receives apply \<open>[T1]\<close> and then revert \<open>[T1]\<close>, which
  cancel, the timer armed by the first still makes the loop call the consumer callback,
  once, with two empty slices; and so does \<open>Close\<close> in place of the timer.
\<close>

theorem cancelled_out_still_dispatched:
  "c_revert (coalesce key c r a) \<noteq> None \<and> c_apply (coalesce key c r a) \<noteq> None \<and>
   (\<exists>c'. run delay key notify NewHeadChangeCoalescer
            [(t1, Submit None (Some [T1])), (t2, Submit (Some [T1]) None), (t1 + delay, WakeTimer)] =
          Some c' \<and> notified c' = [(t1 + delay, Some [], Some [])]) \<and>
   (\<exists>c'. run delay key notify NewHeadChangeCoalescer
            [(t1, Submit None (Some [T1])), (t2, Submit (Some [T1]) None), (t3, Shutdown), (t4, WakeDone)] =
          Some c' \<and> notified c' = [(t4, Some [], Some [])])"
  by (simp add: eval_defs)

theorem cancelled_out_still_dispatched_witness:
  "c_revert (coalesce id NewHeadChangeCoalescer (Some [1::nat]) None) \<noteq> None \<and>
   (\<exists>c'. run 10 id (\<lambda>h r a. None) NewHeadChangeCoalescer
            [(0, Submit None (Some [1::nat])), (1, Submit (Some [1]) None), (0 + 10, WakeTimer)] =
          Some c' \<and> notified c' = [(0 + 10, Some [], Some [])])"
  using cancelled_out_still_dispatched [where key = id and c = NewHeadChangeCoalescer
      and r = "Some [1::nat]" and a = None and delay = 10 and notify = "\<lambda>h r a. None"
      and ?t1.0 = 0 and ?T1.0 = "1::nat" and ?t2.0 = 1 and ?t3.0 = 2 and ?t4.0 = 3]
  by simp

section \<open>Timing: the quiescence window\<close>

lemma coalesce_fields [simp]:
  "notified (coalesce key c r a) = notified c"
  "ctx_done (coalesce key c r a) = ctx_done c"
  "returned (coalesce key c r a) = returned c"
  "timerC (coalesce key c r a) = timerC c"
  by (simp_all add: coalesce_eq)

lemma coalesce_all_fields [simp]:
  "notified (coalesce_all key c evs) = notified c"
  "ctx_done (coalesce_all key c evs) = ctx_done c"
  "returned (coalesce_all key c evs) = returned c"
  "timerC (coalesce_all key c evs) = timerC c"
  by (induction key c evs rule: coalesce_all.induct) simp_all

lemma coalesce_timerC_update:
  "coalesce key (c\<lparr>timerC := v\<rparr>) r a = (coalesce key c r a)\<lparr>timerC := v\<rparr>"
  by (simp add: coalesce_eq)

lemma coalesce_all_timerC_update:
  "coalesce_all key (c\<lparr>timerC := v\<rparr>) evs = (coalesce_all key c evs)\<lparr>timerC := v\<rparr>"
  by (induction key c evs rule: coalesce_all.induct) (simp_all add: coalesce_timerC_update)

lemma background_eventq_armed:
  "timerC c = Some D \<Longrightarrow> background_eventq delay key now c r a = coalesce key c r a"
  by (simp add: background_eventq_def)

lemma background_eventq_idle:
  "timerC c = None \<Longrightarrow>
     background_eventq delay key now c r a = (coalesce key c r a)\<lparr>timerC := Some (now + delay)\<rparr>"
  by (simp add: background_eventq_def)

lemma after_timer_nothing:
  assumes "\<not> ctx_done c" and "timerC c = None"
      and "\<forall>(t, x) \<in> set xs. x \<noteq> Shutdown"
      and "\<forall>(t, r, a) \<in> set (submitted xs). t < D"
      and "on_time delay key notify c D xs"
  shows "xs = []"
proof (cases xs)
  case Nil
  then show ?thesis .
next
  case (Cons y ys)
  obtain now act where y: "y = (now, act)" by (cases y)
  from assms(5) Cons y have le: "D \<le> now"
    and st: "step delay key notify c (now, act) \<noteq> None"
    by (auto split: option.splits)
  have False
  proof (cases act)
    case (Submit r a)
    with assms(4) Cons y have "now < D" by simp
    with le show False by simp
  next
    case Shutdown
    with assms(3) Cons y show False by simp
  next
    case WakeTimer
    with st assms(2) show False by (simp add: timer_ready_def)
  next
    case WakeDone
    with st assms(1) show False by simp
  qed
  then show ?thesis ..
qed

lemma armed_burst:
  assumes "\<not> ctx_done c" and "\<not> returned c" and "timerC c = Some D"
      and "\<forall>(t, x) \<in> set sched. x \<noteq> Shutdown"
      and "\<forall>(t, r, a) \<in> set (submitted sched). t < D"
      and "on_time delay key notify c tp sched"
      and "run delay key notify c sched = Some c'"
  shows "c' = coalesce_all key c (submitted sched) \<or>
         c' = background_timerC notify D (coalesce_all key c (submitted sched))"
  using assms
proof (induction sched arbitrary: c tp)
  case Nil
  then show ?case by simp
next
  case (Cons y ys)
  obtain now act where y: "y = (now, act)" by (cases y)
  from Cons.prems(7) y obtain cm where s: "step delay key notify c (now, act) = Some cm"
    and r: "run delay key notify cm ys = Some c'"
    by (auto split: option.splits)
  from Cons.prems(6) y s have le: "now \<le> D" and ot: "on_time delay key notify cm now ys"
    using Cons.prems(2,3) by (auto simp del: step.simps)
  show ?case
  proof (cases act)
    case (Submit r0 a0)
    with s Cons.prems(1,2,3) have cm: "cm = coalesce key c r0 a0"
      by (simp add: HeadChange_def background_eventq_armed)
    have "c' = coalesce_all key cm (submitted ys) \<or>
          c' = background_timerC notify D (coalesce_all key cm (submitted ys))"
    proof (rule Cons.IH [OF _ _ _ _ _ ot r])
      show "\<not> ctx_done cm" "\<not> returned cm" "timerC cm = Some D"
        using cm Cons.prems(1,2,3) by simp_all
      show "\<forall>(t, x) \<in> set ys. x \<noteq> Shutdown" using Cons.prems(4) by simp
      show "\<forall>(t, r, a) \<in> set (submitted ys). t < D" using Cons.prems(5) y Submit by auto
    qed
    with cm y Submit show ?thesis by simp
  next
    case Shutdown
    with Cons.prems(4) y show ?thesis by simp
  next
    case WakeTimer
    with s Cons.prems(3) have "D \<le> now" and cm: "cm = background_timerC notify now c"
      by (auto simp: timer_ready_def split: if_splits)
    with le have now: "now = D" by simp
    have "ys = []"
    proof (rule after_timer_nothing)
      show "\<not> ctx_done cm" "timerC cm = None"
        using cm Cons.prems(1) by (simp_all add: background_timerC_def dispatch_eq)
      show "\<forall>(t, x) \<in> set ys. x \<noteq> Shutdown" using Cons.prems(4) by simp
      show "\<forall>(t, r, a) \<in> set (submitted ys). t < D" using Cons.prems(5) y WakeTimer by auto
      show "on_time delay key notify cm D ys" using ot now by simp
    qed
    with r cm now y WakeTimer show ?thesis by simp
  next
    case WakeDone
    with s Cons.prems(1) show ?thesis by simp
  qed
qed

text \<open>
  C7, as stated, fails. With a delay of 10, submissions arrive at 0, 6 and 12, each
  less than 10 after the one before. The timer armed at 0 is not touched by the
  submission at 6 and fires at 10, so the first two are dispatched then; the third arms
  a new timer and is dispatched at 22. There are two dispatches, and none holds the
  whole burst. Holding back the first dispatch until the third submission has been
  merged would leave the timer of instant 10 unserved at 12.
\<close>

theorem quiescence_counterexample:
  "on_time 10 id (\<lambda>h r a. None) NewHeadChangeCoalescer 0
     [(0, Submit None (Some [1::nat])), (6, Submit None (Some [2])), (10, WakeTimer),
      (12, Submit None (Some [3])), (22, WakeTimer)] \<and>
   run 10 id (\<lambda>h r a. None) NewHeadChangeCoalescer
     [(0, Submit None (Some [1::nat])), (6, Submit None (Some [2])), (10, WakeTimer),
      (12, Submit None (Some [3])), (22, WakeTimer)] =
   Some \<lparr>c_revert = None, c_apply = None, ctx_done = False, timerC = None, returned = False,
         notified = [(10, Some [], Some [1, 2]), (22, Some [], Some [3])], logged = []\<rparr> \<and>
   \<not> on_time 10 id (\<lambda>h r a. None) NewHeadChangeCoalescer 0
     [(0, Submit None (Some [1::nat])), (6, Submit None (Some [2])), (12, Submit None (Some [3]))]"
  by (simp add: eval_defs)

text \<open>
  C7, amended. Take a coalescer with no timer armed and nothing pending, and a timely
  run without \<open>Close\<close> whose submissions all arrive less than \<open>delay\<close> after the first
  of them, at \<open>t0\<close>. Then at the end of the run either no dispatch has happened, the
  pending pair is the merge of all the submissions, and the timer, armed for
  \<open>t0 + delay\<close>, then dispatches exactly that pair; or exactly one dispatch has happened,
  at \<open>t0 + delay\<close>, with the merge of all the submissions, and nothing is pending and no
  timer armed.
\<close>

theorem quiescence_within_window:
  assumes idle: "\<not> ctx_done c" "\<not> returned c" "timerC c = None"
                "c_revert c = None" "c_apply c = None"
      and noclose: "\<forall>(t, x) \<in> set sched. x \<noteq> Shutdown"
      and burst: "submitted sched = (t0, r0, a0) # evs" "\<forall>(t, r, a) \<in> set evs. t < t0 + delay"
      and timely: "on_time delay key notify c tp sched"
      and run: "run delay key notify c sched = Some c'"
  shows "(notified c' = notified c \<and> timerC c' = Some (t0 + delay) \<and>
          c_revert c' = c_revert (coalesce_all key c (submitted sched)) \<and>
          c_apply c' = c_apply (coalesce_all key c (submitted sched)) \<and>
          (\<exists>c''. step delay key notify c' (t0 + delay, WakeTimer) = Some c'' \<and>
                 notified c'' = notified c @
                   [(t0 + delay, c_revert (coalesce_all key c (submitted sched)),
                     c_apply (coalesce_all key c (submitted sched)))])) \<or>
         (notified c' = notified c @
            [(t0 + delay, c_revert (coalesce_all key c (submitted sched)),
              c_apply (coalesce_all key c (submitted sched)))] \<and>
          timerC c' = None \<and> c_revert c' = None \<and> c_apply c' = None)"
proof (cases sched)
  case Nil
  with burst(1) show ?thesis by simp
next
  case (Cons y ys)
  obtain now act where y: "y = (now, act)" by (cases y)
  from run Cons y obtain cm where s: "step delay key notify c (now, act) = Some cm"
    and r: "run delay key notify cm ys = Some c'"
    by (auto split: option.splits)
  from timely Cons y s have ot: "on_time delay key notify cm now ys"
    by (auto simp del: step.simps)
  let ?D = "t0 + delay"
  let ?M = "coalesce_all key c (submitted sched)"
  show ?thesis
  proof (cases act)
    case (Submit r1 a1)
    with burst(1) Cons y have eq: "now = t0" "r1 = r0" "a1 = a0" and sub: "submitted ys = evs"
      by simp_all
    from s Submit idle eq have cm: "cm = (coalesce key c r0 a0)\<lparr>timerC := Some ?D\<rparr>"
      by (simp add: HeadChange_def background_eventq_idle)
    have "c' = coalesce_all key cm (submitted ys) \<or>
          c' = background_timerC notify ?D (coalesce_all key cm (submitted ys))"
    proof (rule armed_burst [OF _ _ _ _ _ ot r])
      show "\<not> ctx_done cm" "\<not> returned cm" "timerC cm = Some ?D"
        using cm idle by simp_all
      show "\<forall>(t, x) \<in> set ys. x \<noteq> Shutdown" using noclose Cons by simp
      show "\<forall>(t, r, a) \<in> set (submitted ys). t < ?D" using burst(2) sub by auto
    qed
    moreover have "coalesce_all key cm (submitted ys) = ?M\<lparr>timerC := Some ?D\<rparr>"
      using cm sub burst(1) by (simp add: coalesce_all_timerC_update)
    ultimately have "c' = ?M\<lparr>timerC := Some ?D\<rparr> \<or>
                     c' = background_timerC notify ?D (?M\<lparr>timerC := Some ?D\<rparr>)"
      by simp
    then show ?thesis
    proof
      assume "c' = ?M\<lparr>timerC := Some ?D\<rparr>"
      with idle have ?thesis
        by (simp add: timer_ready_def background_timerC_def dispatch_eq)
      then show ?thesis .
    next
      assume "c' = background_timerC notify ?D (?M\<lparr>timerC := Some ?D\<rparr>)"
      then show ?thesis by (simp add: background_timerC_def dispatch_eq)
    qed
  next
    case Shutdown
    with noclose Cons y show ?thesis by simp
  next
    case WakeTimer
    with s idle show ?thesis by (simp add: timer_ready_def)
  next
    case WakeDone
    with s idle show ?thesis by simp
  qed
qed

theorem quiescence_within_window_witness:
  "on_time 10 id (\<lambda>h r a. None) NewHeadChangeCoalescer 0
     [(0, Submit None (Some [1::nat])), (6, Submit (Some [1]) (Some [2])), (10, WakeTimer)] \<and>
   run 10 id (\<lambda>h r a. None) NewHeadChangeCoalescer
     [(0, Submit None (Some [1::nat])), (6, Submit (Some [1]) (Some [2])), (10, WakeTimer)] =
   Some \<lparr>c_revert = None, c_apply = None, ctx_done = False, timerC = None, returned = False,
         notified = [(10, Some [], Some [2])], logged = []\<rparr> \<and>
   [(10::nat, Some [], Some [2::nat])] =
     [(0 + 10,
       c_revert (coalesce_all id NewHeadChangeCoalescer
         (submitted [(0, Submit None (Some [1::nat])), (6, Submit (Some [1]) (Some [2])), (10, WakeTimer)])),
       c_apply (coalesce_all id NewHeadChangeCoalescer
         (submitted [(0, Submit None (Some [1::nat])), (6, Submit (Some [1]) (Some [2])), (10, WakeTimer)])))]"
proof -
  let ?sched = "[(0, Submit None (Some [1::nat])), (6, Submit (Some [1]) (Some [2])), (10, WakeTimer)]"
  let ?c' = "\<lparr>c_revert = None, c_apply = None, ctx_done = False, timerC = None, returned = False,
         notified = [(10::nat, Some [], Some [2::nat])], logged = []\<rparr>"
  have t: "on_time 10 id (\<lambda>h r a. None) NewHeadChangeCoalescer 0 ?sched"
    by (simp add: eval_defs)
  have r: "run 10 id (\<lambda>h r a. None) NewHeadChangeCoalescer ?sched = Some ?c'"
    by (simp add: eval_defs)
  have b: "submitted ?sched = (0, None, Some [1]) # [(6, Some [1], Some [2])]"
    by simp
  have n: "\<forall>(t, x) \<in> set ?sched. x \<noteq> Shutdown" by simp
  have w: "\<forall>(t, r, a) \<in> set [(6::nat, Some [1::nat], Some [2::nat])]. t < 0 + 10" by simp
  have i: "\<not> ctx_done (NewHeadChangeCoalescer :: nat HeadChangeCoalescer)"
    "\<not> returned (NewHeadChangeCoalescer :: nat HeadChangeCoalescer)"
    "timerC (NewHeadChangeCoalescer :: nat HeadChangeCoalescer) = None"
    "c_revert (NewHeadChangeCoalescer :: nat HeadChangeCoalescer) = None"
    "c_apply (NewHeadChangeCoalescer :: nat HeadChangeCoalescer) = None"
    by (simp_all add: NewHeadChangeCoalescer_def)
  from quiescence_within_window [OF i n b w t r] t r show ?thesis
    by (simp add: coalesce_eq keys_def NewHeadChangeCoalescer_def)
qed

subsection \<open>The window does not slide\<close>

lemma background_eventq_eq:
  "background_eventq delay key now c r a =
     (coalesce key c r a)\<lparr>timerC := Some (case timerC c of None \<Rightarrow> now + delay | Some d \<Rightarrow> d)\<rparr>"
  by (simp add: background_eventq_def coalesce_eq Let_def split: option.splits)

lemma step_log_grows:
  assumes "step delay key notify c x = Some c'"
  shows "\<exists>zs. notified c' = notified c @ zs"
proof (cases x)
  case (Pair now act)
  with assms show ?thesis
    by (cases act)
       (auto simp: HeadChange_def Close_def background_eventq_eq background_timerC_def background_ctx_done_def
                   coalesce_eq dispatch_eq split: if_splits)
qed

lemma fired_step:
  assumes "fired log0 t0 D c" and "step delay key notify c x = Some c'"
  shows "fired log0 t0 D c'"
proof -
  from assms(2) obtain zs where "notified c' = notified c @ zs"
    using step_log_grows by blast
  with assms(1) show ?thesis
    unfolding fired_def by fastforce
qed

lemma fired_run:
  "fired log0 t0 D c \<Longrightarrow> run delay key notify c xs = Some c' \<Longrightarrow> fired log0 t0 D c'"
  by (induction xs arbitrary: c) (auto split: option.splits dest: fired_step)

lemma armed_step:
  assumes "armed log0 D c" and "step delay key notify c (now, act) = Some c'"
      and "t0 \<le> now" and "now \<le> D"
  shows "armed log0 D c' \<or> fired log0 t0 D c'"
proof (cases act)
  case (Submit r a)
  with assms show ?thesis
    by (auto simp: armed_def HeadChange_def background_eventq_eq coalesce_eq split: if_splits)
next
  case Shutdown
  with assms show ?thesis by (auto simp: armed_def Close_def split: if_splits)
next
  case WakeTimer
  with assms have "now = D" and "notified c' = log0 @ [(now, c_revert c, c_apply c)]"
    by (auto simp: armed_def timer_ready_def background_timerC_def dispatch_eq split: if_splits)
  with assms(3) have "fired log0 t0 D c'"
    unfolding fired_def by fastforce
  then show ?thesis ..
next
  case WakeDone
  with assms have "notified c' = log0 @ [(now, c_revert c, c_apply c)]"
    by (auto simp: armed_def background_ctx_done_def dispatch_eq split: if_splits)
  with assms(3,4) have "fired log0 t0 D c'"
    unfolding fired_def by fastforce
  then show ?thesis ..
qed

lemma armed_run:
  assumes "armed log0 D c \<or> fired log0 t0 D c"
      and "on_time delay key notify c tp xs" and "t0 \<le> tp"
      and "run delay key notify c xs = Some c'"
      and "(t, x) \<in> set xs" and "D < t"
  shows "fired log0 t0 D c'"
  using assms
proof (induction xs arbitrary: c tp)
  case Nil
  then show ?case by simp
next
  case (Cons y ys)
  obtain now act where y: "y = (now, act)" by (cases y)
  from Cons.prems(4) y obtain cm where s: "step delay key notify c (now, act) = Some cm"
    and r: "run delay key notify cm ys = Some c'"
    by (auto split: option.splits)
  from Cons.prems(2) y s have tp: "tp \<le> now"
    and pr: "returned c \<or> (case timerC c of None \<Rightarrow> True | Some d \<Rightarrow> now \<le> d)"
    and ot: "on_time delay key notify cm now ys"
    by auto
  show ?case
  proof (cases "fired log0 t0 D c")
    case True
    then have "fired log0 t0 D cm" using s by (rule fired_step)
    then show ?thesis using r by (rule fired_run)
  next
    case False
    with Cons.prems(1) have ar: "armed log0 D c" by simp
    with pr have le: "now \<le> D" by (simp add: armed_def)
    from tp Cons.prems(3) have t0: "t0 \<le> now" by simp
    from ar s t0 le have cm: "armed log0 D cm \<or> fired log0 t0 D cm" by (rule armed_step)
    from le Cons.prems(5,6) y have "(t, x) \<in> set ys" by auto
    with cm ot t0 r show ?thesis using Cons.prems(6) by (rule Cons.IH)
  qed
qed

text \<open>
  C8. The event case of the loop arms a timer only when none is armed and leaves an
  armed one as it is. So in a timely run that starts, with no timer armed, with a
  submission at \<open>t0\<close> and in which a submission arrives later than \<open>t0 + delay\<close>, the
  consumer callback has been called at an instant from \<open>t0\<close> to \<open>t0 + delay\<close>, however
  closely the submissions follow each other.
\<close>

theorem window_not_sliding:
  assumes idle: "\<not> ctx_done c" "\<not> returned c" "timerC c = None"
      and timely: "on_time delay key notify c t0 ((t0, Submit r a) # sched)"
      and run: "run delay key notify c ((t0, Submit r a) # sched) = Some c'"
      and late: "(t, Submit r' a') \<in> set sched" "t0 + delay < t"
  shows "timerC (background_eventq delay key now c1 r1 a1) =
           (case timerC c1 of None \<Rightarrow> Some (now + delay) | Some d \<Rightarrow> Some d) \<and>
         (\<exists>ys td R A. notified c' = notified c @ ys \<and> (td, R, A) \<in> set ys \<and>
                      t0 \<le> td \<and> td \<le> t0 + delay)"
proof -
  have t: "timerC (background_eventq delay key now c1 r1 a1) =
           (case timerC c1 of None \<Rightarrow> Some (now + delay) | Some d \<Rightarrow> Some d)"
    by (simp add: background_eventq_eq coalesce_eq split: option.splits)
  let ?c1 = "background_eventq delay key t0 c r a"
  from idle have s: "step delay key notify c (t0, Submit r a) = Some ?c1"
    by (simp add: HeadChange_def)
  from idle have "armed (notified c) (t0 + delay) ?c1"
    by (simp add: armed_def background_eventq_eq coalesce_eq)
  then have a: "armed (notified c) (t0 + delay) ?c1 \<or> fired (notified c) t0 (t0 + delay) ?c1" ..
  from timely s have ot: "on_time delay key notify ?c1 t0 sched" by (simp del: step.simps)
  from run s have r: "run delay key notify ?c1 sched = Some c'" by (simp del: step.simps)
  from a ot _ r late have "fired (notified c) t0 (t0 + delay) c'"
    by (rule armed_run) simp
  with t show ?thesis unfolding fired_def by simp
qed

theorem window_not_sliding_witness:
  "on_time 10 id (\<lambda>h r a. None) NewHeadChangeCoalescer 0
     [(0, Submit None (Some [1::nat])), (6, Submit None (Some [2])), (10, WakeTimer),
      (12, Submit None (Some [3]))] \<and>
   run 10 id (\<lambda>h r a. None) NewHeadChangeCoalescer
     [(0, Submit None (Some [1::nat])), (6, Submit None (Some [2])), (10, WakeTimer),
      (12, Submit None (Some [3]))] =
   Some \<lparr>c_revert = Some [], c_apply = Some [3], ctx_done = False, timerC = Some 22,
         returned = False, notified = [(10, Some [], Some [1, 2])], logged = []\<rparr> \<and>
   (\<exists>ys td R A. [(10::nat, Some [], Some [1, 2::nat])] = [] @ ys \<and> (td, R, A) \<in> set ys \<and>
                0 \<le> td \<and> td \<le> (0::nat) + 10)"
proof -
  let ?sched = "[(6, Submit None (Some [2::nat])), (10, WakeTimer), (12, Submit None (Some [3]))]"
  let ?c' = "\<lparr>c_revert = Some [], c_apply = Some [3::nat], ctx_done = False, timerC = Some 22,
         returned = False, notified = [(10::nat, Some [], Some [1, 2])], logged = []\<rparr>"
  have t: "on_time 10 id (\<lambda>h r a. None) NewHeadChangeCoalescer 0
             ((0, Submit None (Some [1::nat])) # ?sched)"
    by (simp add: eval_defs)
  have r: "run 10 id (\<lambda>h r a. None) NewHeadChangeCoalescer
             ((0, Submit None (Some [1::nat])) # ?sched) = Some ?c'"
    by (simp add: eval_defs)
  have l: "(12, Submit None (Some [3::nat])) \<in> set ?sched" "0 + 10 < (12::nat)" by simp_all
  have i: "\<not> ctx_done (NewHeadChangeCoalescer :: nat HeadChangeCoalescer)"
    "\<not> returned (NewHeadChangeCoalescer :: nat HeadChangeCoalescer)"
    "timerC (NewHeadChangeCoalescer :: nat HeadChangeCoalescer) = None"
    by (simp_all add: NewHeadChangeCoalescer_def)
  from window_not_sliding [OF i t r l] t r show ?thesis
    by (simp add: NewHeadChangeCoalescer_def)
qed

end
